theory Spec2Isabelle
  imports Complex_Main
begin

section \<open>Ping monitor: configuration, exceptions and containers\<close>

text \<open>
  The development follows \<^verbatim>\<open>multi_pingpong.py\<close>. Ping times are Python floats; they are
  modelled as exact reals, so IEEE rounding, infinities and NaN are outside the model of
  a ping time. The timeout option keeps its non-finite values (\<open>pyfloat\<close> below), since
  the program converts it with \<^verbatim>\<open>int\<close>.
  Python's unbounded integers are \<open>int\<close>, strings are \<open>string\<close>, \<^verbatim>\<open>None\<close> in a
  "float or None" position is \<open>None\<close> of \<open>real option\<close>.
\<close>

definition MAX_HISTORY :: nat where
  "MAX_HISTORY = 50"

definition LOSS_THRESHOLD :: real where
  "LOSS_THRESHOLD = 20"

definition LATENCY_THRESHOLD :: real where
  "LATENCY_THRESHOLD = 200"

text \<open>
  The exception classes the program meets. \<open>Gaierror\<close> is \<^verbatim>\<open>socket.gaierror\<close>,
  \<open>TimeoutError\<close> is \<^verbatim>\<open>asyncio.TimeoutError\<close>. \<open>SystemExit\<close> is what \<^verbatim>\<open>parser.error\<close>
  raises; it and \<open>KeyboardInterrupt\<close> derive from \<^verbatim>\<open>BaseException\<close> only, every other
  class below derives from \<^verbatim>\<open>Exception\<close>.
\<close>

datatype py_exception =
    TimeoutError
  | OSError
  | Gaierror
  | UnicodeError
  | ValueError
  | OverflowError
  | StatisticsError
  | IndexError
  | KeyError
  | KeyboardInterrupt
  | SystemExit string

fun is_Exception :: "py_exception \<Rightarrow> bool" where
  "is_Exception KeyboardInterrupt = False"
| "is_Exception (SystemExit msg) = False"
| "is_Exception e = True"

subsection \<open>Insertion-ordered dictionaries\<close>

text \<open>
  A Python \<^verbatim>\<open>dict\<close> keeps its keys in insertion order, and the program reads
  \<^verbatim>\<open>ping_data.values()\<close> by position, so a dictionary is an association list with
  distinct keys. Assigning to a key that is present replaces the value in place;
  a new key goes to the end.
\<close>

type_synonym ('k, 'v) pydict = "('k \<times> 'v) list"

fun dict_setitem :: "('k, 'v) pydict \<Rightarrow> 'k \<Rightarrow> 'v \<Rightarrow> ('k, 'v) pydict" where
  "dict_setitem [] k v = [(k, v)]"
| "dict_setitem ((k', v') # d) k v =
     (if k' = k then (k, v) # d else (k', v') # dict_setitem d k v)"

definition dict_getitem :: "('k, 'v) pydict \<Rightarrow> 'k \<Rightarrow> py_exception + 'v" where
  "dict_getitem d k = (case map_of d k of None \<Rightarrow> Inl KeyError | Some v \<Rightarrow> Inr v)"

definition dict_values :: "('k, 'v) pydict \<Rightarrow> 'v list" where
  "dict_values d = map snd d"

text \<open>The comprehension \<^verbatim>\<open>{k: v for k, v in pairs}\<close>: one assignment per pair, in order.\<close>

definition dict_comprehension :: "('k \<times> 'v) list \<Rightarrow> ('k, 'v) pydict" where
  "dict_comprehension kvs = foldl (\<lambda>d (k, v). dict_setitem d k v) [] kvs"

text \<open>List indexing with a non-negative index, as \<^verbatim>\<open>enumerate\<close> produces it.\<close>

definition list_getitem :: "'a list \<Rightarrow> nat \<Rightarrow> py_exception + 'a" where
  "list_getitem xs i = (if i < length xs then Inr (xs ! i) else Inl IndexError)"

subsection \<open>Bounded deques\<close>

text \<open>
  \<^verbatim>\<open>collections.deque(maxlen=n)\<close>: the deque carries its bound; \<^verbatim>\<open>append\<close> adds on the
  right and, when the bound is exceeded, discards one item from the left.
\<close>

record 'a deque =
  items :: "'a list"
  maxlen :: nat

definition deque_new :: "nat \<Rightarrow> 'a deque" where
  "deque_new n = \<lparr>items = [], maxlen = n\<rparr>"

definition deque_append :: "'a deque \<Rightarrow> 'a \<Rightarrow> 'a deque" where
  "deque_append d x =
     (let xs = items d @ [x]
      in d\<lparr>items := (if maxlen d < length xs then tl xs else xs)\<rparr>)"

section \<open>The history store (\<^verbatim>\<open>main\<close>, lines 355 and 366-372)\<close>

type_synonym outcome = "real option"

record history =
  pings :: "outcome deque"
  total_packets :: int
  success_packets :: int
  failed_packets :: int

definition new_history :: history where
  "new_history =
     \<lparr>pings = deque_new MAX_HISTORY, total_packets = 0, success_packets = 0, failed_packets = 0\<rparr>"

text \<open>The body of the recording loop for one target's entry.\<close>

definition record_result :: "history \<Rightarrow> outcome \<Rightarrow> history" where
  "record_result h result =
     (let h1 = h\<lparr>pings := deque_append (pings h) result\<rparr>;
          h2 = h1\<lparr>total_packets := total_packets h1 + 1\<rparr>
      in if result \<noteq> None
         then h2\<lparr>success_packets := success_packets h2 + 1\<rparr>
         else h2\<lparr>failed_packets := failed_packets h2 + 1\<rparr>)"

type_synonym ip_mappings = "(string \<times> string) list"

type_synonym histories = "(string, history) pydict"

definition init_histories :: "ip_mappings \<Rightarrow> histories" where
  "init_histories m = dict_comprehension (map (\<lambda>(original, resolved). (original, new_history)) m)"

text \<open>
  \<^verbatim>\<open>for original, result in ping_data_mapped.items()\<close>: each pass looks the target's
  entry up (a missing key would raise \<open>KeyError\<close>) and updates it.
\<close>

fun record_round :: "histories \<Rightarrow> (string \<times> outcome) list \<Rightarrow> py_exception + histories" where
  "record_round hs [] = Inr hs"
| "record_round hs ((original, result) # rest) =
     (case dict_getitem hs original of
        Inl e \<Rightarrow> Inl e
      | Inr h \<Rightarrow> record_round (dict_setitem hs original (record_result h result)) rest)"

section \<open>The prober (\<^verbatim>\<open>ping_ip\<close>, lines 153-180)\<close>

subsection \<open>Number conversions used by the command line and the output parser\<close>

text \<open>
  \<^verbatim>\<open>int(x)\<close> on a finite float discards the fractional part: the whole part, with the
  sign.
\<close>

definition py_int :: "real \<Rightarrow> int" where
  "py_int x = (if x < 0 then - \<lfloor>- x\<rfloor> else \<lfloor>x\<rfloor>)"

text \<open>The decimal text of an integer, as an f-string field prints it.\<close>

definition digit_char :: "nat \<Rightarrow> char" where
  "digit_char n = ''0123456789'' ! (n mod 10)"

fun str_nat :: "nat \<Rightarrow> string" where
  "str_nat n = (if n < 10 then [digit_char n] else str_nat (n div 10) @ [digit_char n])"

definition str_int :: "int \<Rightarrow> string" where
  "str_int i = (if i < 0 then CHR ''-'' # str_nat (nat (- i)) else str_nat (nat i))"

definition is_digit :: "char \<Rightarrow> bool" where
  "is_digit c = (c \<in> set ''0123456789'')"

definition digit_value :: "char \<Rightarrow> nat" where
  "digit_value c = of_char c - 48"

definition digits_value :: "string \<Rightarrow> nat" where
  "digits_value ds = foldl (\<lambda>acc c. 10 * acc + digit_value c) 0 ds"

text \<open>
  \<^verbatim>\<open>float(text)\<close> on the text the pattern's group can capture: digits, then optionally a
  point and further digits.
\<close>

definition py_float :: "string \<Rightarrow> real" where
  "py_float g =
     (let whole = takeWhile is_digit g;
          frac = drop (Suc (length whole)) g
      in real (digits_value whole) + real (digits_value frac) / 10 ^ length frac)"

subsection \<open>The pattern \<^verbatim>\<open>time[<=](\d+\.?\d*)\<close>\<close>

text \<open>
  The group: the longest run of digits, then a point if one follows, then the longest
  run of digits after it. All three parts are greedy and the later ones may be empty, so
  no backtracking changes the result. Characters are bytes here: the decimal digits
  outside ASCII that \<^verbatim>\<open>\d\<close> also accepts are not modelled.
\<close>

definition number_group :: "string \<Rightarrow> string" where
  "number_group s =
     (let whole = takeWhile is_digit s;
          rest = dropWhile is_digit s
      in case rest of
           [] \<Rightarrow> whole
         | c # rest' \<Rightarrow>
             if c = CHR ''.'' then whole @ [c] @ takeWhile is_digit rest' else whole)"

text \<open>A match that starts at the first character of \<open>s\<close>; the result is group 1.\<close>

definition match_here :: "string \<Rightarrow> string option" where
  "match_here s =
     (case drop 4 s of
        c # d # rest \<Rightarrow>
          if take 4 s = ''time'' \<and> (c = CHR ''<'' \<or> c = CHR ''='') \<and> is_digit d
          then Some (number_group (d # rest)) else None
      | _ \<Rightarrow> None)"

text \<open>\<^verbatim>\<open>re.search\<close>: the leftmost position at which the pattern matches.\<close>

fun re_search :: "string \<Rightarrow> string option" where
  "re_search [] = None"
| "re_search (c # s) =
     (case match_here (c # s) of Some g \<Rightarrow> Some g | None \<Rightarrow> re_search s)"

subsection \<open>One probe\<close>

text \<open>
  What the body of the \<^verbatim>\<open>try\<close> block gets from the operating system: either some
  statement in it raises, or the subprocess finishes and its standard output decodes to
  a text. The subprocess is a parameter: it is given the command line and the bound
  passed to \<^verbatim>\<open>asyncio.wait_for\<close>.
\<close>

datatype proc_result = Raised py_exception | Stdout string

type_synonym subprocess = "string \<Rightarrow> real \<Rightarrow> proc_result"

text \<open>\<open>windows\<close> stands for \<^verbatim>\<open>platform.system().lower() == 'windows'\<close>.\<close>

definition ping_cmd :: "bool \<Rightarrow> string \<Rightarrow> real \<Rightarrow> string" where
  "ping_cmd windows ip timeout =
     (let param = (if windows then ''-n'' else ''-c'');
          timeout_param = (if windows then ''-w'' else ''-W'')
      in ''ping '' @ param @ '' 1 '' @ timeout_param @ '' '' @ str_int (py_int timeout)
           @ '' '' @ ip)"

text \<open>
  The timeout comes from \<^verbatim>\<open>argparse\<close> with \<^verbatim>\<open>type=float\<close>, which accepts \<^verbatim>\<open>inf\<close>,
  \<^verbatim>\<open>-inf\<close> and \<^verbatim>\<open>nan\<close> besides the finite values.
\<close>

datatype pyfloat = Finite real | PosInf | NegInf | NaN

text \<open>
  The command line is built before the \<^verbatim>\<open>try\<close>: there \<^verbatim>\<open>int(timeout)\<close> raises
  \<^verbatim>\<open>ValueError\<close> for \<^verbatim>\<open>nan\<close> and \<^verbatim>\<open>OverflowError\<close> for an infinity, and no handler
  of \<^verbatim>\<open>ping_ip\<close> covers that line. Inside the \<^verbatim>\<open>try\<close>, the two handlers
  \<^verbatim>\<open>except asyncio.TimeoutError\<close> and \<^verbatim>\<open>except Exception\<close> both return \<^verbatim>\<open>None\<close>; an
  exception outside \<^verbatim>\<open>Exception\<close> leaves the coroutine.
\<close>

definition ping_ip :: "bool \<Rightarrow> subprocess \<Rightarrow> string \<Rightarrow> pyfloat \<Rightarrow> py_exception + outcome" where
  "ping_ip windows run ip timeout =
     (case timeout of
        NaN \<Rightarrow> Inl ValueError
      | PosInf \<Rightarrow> Inl OverflowError
      | NegInf \<Rightarrow> Inl OverflowError
      | Finite t \<Rightarrow>
          (let cmd = ping_cmd windows ip t
           in case run cmd (t + 1) of
                Stdout output \<Rightarrow>
                  (case re_search output of
                     Some g \<Rightarrow> Inr (Some (py_float g))
                   | None \<Rightarrow> Inr None)
              | Raised e \<Rightarrow>
                  if e = TimeoutError then Inr None
                  else if is_Exception e then Inr None
                  else Inl e))"

section \<open>One round (\<^verbatim>\<open>ping_all_ips\<close>, lines 182-194, and \<^verbatim>\<open>main\<close>, lines 363-372)\<close>

text \<open>
  \<^verbatim>\<open>asyncio.gather\<close> returns the tasks' results in the order of the tasks; an exception
  leaving a task leaves \<^verbatim>\<open>gather\<close> too. Which task's exception wins when several raise
  depends on timing; the model takes the first in task order.
\<close>

fun gather :: "(py_exception + 'a) list \<Rightarrow> py_exception + 'a list" where
  "gather [] = Inr []"
| "gather (Inl e # ts) = Inl e"
| "gather (Inr x # ts) = (case gather ts of Inl e \<Rightarrow> Inl e | Inr xs \<Rightarrow> Inr (x # xs))"

text \<open>The environment of a round gives each task, by its position, its subprocess.\<close>

type_synonym round_env = "nat \<Rightarrow> subprocess"

definition ping_all_ips ::
  "bool \<Rightarrow> round_env \<Rightarrow> string list \<Rightarrow> pyfloat \<Rightarrow> py_exception + (string, outcome) pydict" where
  "ping_all_ips windows env ips timeout =
     (let tasks = map (\<lambda>(i, ip). ping_ip windows (env i) ip timeout) (enumerate 0 ips)
      in case gather tasks of
           Inl e \<Rightarrow> Inl e
         | Inr results \<Rightarrow> Inr (dict_comprehension (zip ips results)))"

text \<open>
  \<^verbatim>\<open>{args.ip_mappings[i][0]: result for i, result in enumerate(ping_data.values())}\<close>:
  the \<open>i\<close>-th value of the dictionary is given to the \<open>i\<close>-th target's original name.
\<close>

fun mapped_from ::
  "ip_mappings \<Rightarrow> nat \<Rightarrow> outcome list \<Rightarrow> (string, outcome) pydict
     \<Rightarrow> py_exception + (string, outcome) pydict" where
  "mapped_from m i [] d = Inr d"
| "mapped_from m i (result # rest) d =
     (case list_getitem m i of
        Inl e \<Rightarrow> Inl e
      | Inr p \<Rightarrow> mapped_from m (Suc i) rest (dict_setitem d (fst p) result))"

definition ping_data_mapped ::
  "ip_mappings \<Rightarrow> (string, outcome) pydict \<Rightarrow> py_exception + (string, outcome) pydict" where
  "ping_data_mapped m ping_data = mapped_from m 0 (dict_values ping_data) []"

text \<open>One pass of the \<^verbatim>\<open>while\<close> loop, up to the recording of the round.\<close>

definition round_result ::
  "bool \<Rightarrow> ip_mappings \<Rightarrow> pyfloat \<Rightarrow> round_env \<Rightarrow> py_exception + (string, outcome) pydict" where
  "round_result windows m timeout env =
     (let resolved_ips = map snd m
      in case ping_all_ips windows env resolved_ips timeout of
           Inl e \<Rightarrow> Inl e
         | Inr ping_data \<Rightarrow> ping_data_mapped m ping_data)"

definition round_step ::
  "bool \<Rightarrow> ip_mappings \<Rightarrow> pyfloat \<Rightarrow> histories \<Rightarrow> round_env \<Rightarrow> py_exception + histories" where
  "round_step windows m timeout hs env =
     (case round_result windows m timeout env of
        Inl e \<Rightarrow> Inl e
      | Inr mapped \<Rightarrow> record_round hs mapped)"

text \<open>The loop, run over the environments of the rounds that take place.\<close>

fun rounds_from ::
  "bool \<Rightarrow> ip_mappings \<Rightarrow> pyfloat \<Rightarrow> histories \<Rightarrow> round_env list \<Rightarrow> py_exception + histories" where
  "rounds_from windows m timeout hs [] = Inr hs"
| "rounds_from windows m timeout hs (env # envs) =
     (case round_step windows m timeout hs env of
        Inl e \<Rightarrow> Inl e
      | Inr hs' \<Rightarrow> rounds_from windows m timeout hs' envs)"

definition main_rounds ::
  "bool \<Rightarrow> ip_mappings \<Rightarrow> pyfloat \<Rightarrow> round_env list \<Rightarrow> py_exception + histories" where
  "main_rounds windows m timeout envs = rounds_from windows m timeout (init_histories m) envs"

section \<open>Statistics over the window (\<^verbatim>\<open>calculate_statistics\<close>, lines 196-214)\<close>

text \<open>
  \<^verbatim>\<open>min\<close>, \<^verbatim>\<open>max\<close> and \<^verbatim>\<open>statistics.median\<close> raise on an empty argument;
  \<^verbatim>\<open>sum\<close> starts from 0.
\<close>

fun py_min :: "real list \<Rightarrow> py_exception + real" where
  "py_min [] = Inl ValueError"
| "py_min (x # xs) = Inr (foldl (\<lambda>m y. if y < m then y else m) x xs)"

fun py_max :: "real list \<Rightarrow> py_exception + real" where
  "py_max [] = Inl ValueError"
| "py_max (x # xs) = Inr (foldl (\<lambda>m y. if m < y then y else m) x xs)"

definition py_sum :: "real list \<Rightarrow> real" where
  "py_sum xs = foldl (\<lambda>acc x. acc + x) 0 xs"

definition statistics_median :: "real list \<Rightarrow> py_exception + real" where
  "statistics_median xs =
     (let data = sort xs; n = length data
      in if n = 0 then Inl StatisticsError
         else if n mod 2 = 1 then Inr (data ! (n div 2))
         else let i = n div 2 in Inr ((data ! (i - 1) + data ! i) / 2))"

record stats =
  stats_min :: "real option"
  stats_max :: "real option"
  stats_avg :: "real option"
  stats_median :: "real option"
  stats_loss :: real

definition valid_pings :: "outcome list \<Rightarrow> real list" where
  "valid_pings xs = concat (map (\<lambda>x. case x of None \<Rightarrow> [] | Some t \<Rightarrow> [t]) xs)"

text \<open>
  The two divisions are by \<open>len(valid_pings)\<close> and \<open>total_pings\<close>; both are positive in
  the branch that divides (lemma \<open>valid_pings_length\<close> below).
\<close>

definition calculate_statistics :: "outcome deque \<Rightarrow> py_exception + stats" where
  "calculate_statistics history =
     (let valid = valid_pings (items history);
          total_pings = length (items history);
          stats = \<lparr>stats_min = None, stats_max = None, stats_avg = None,
                   stats_median = None, stats_loss = 100\<rparr>
      in if valid \<noteq> [] then
           (case py_min valid of Inl e \<Rightarrow> Inl e | Inr mn \<Rightarrow>
           (case py_max valid of Inl e \<Rightarrow> Inl e | Inr mx \<Rightarrow>
           (case statistics_median valid of Inl e \<Rightarrow> Inl e | Inr md \<Rightarrow>
              Inr (stats\<lparr>stats_min := Some mn, stats_max := Some mx,
                     stats_avg := Some (py_sum valid / real (length valid)),
                     stats_median := Some md,
                     stats_loss := (1 - real (length valid) / real total_pings) * 100\<rparr>))))
         else Inr stats)"

section \<open>Alerts (\<^verbatim>\<open>print_ping_results\<close>, lines 328-331)\<close>

text \<open>
  The two warnings a table row can be followed by, for the target \<open>ip\<close> with the
  statistics of its window and \<open>current_time\<close>, the outcome of the latest round.
\<close>

datatype warning = High_packet_loss string real | High_latency string real

definition row_warnings :: "string \<Rightarrow> stats \<Rightarrow> outcome \<Rightarrow> warning list" where
  "row_warnings ip stats current_time =
     (if stats_loss stats > LOSS_THRESHOLD then [High_packet_loss ip (stats_loss stats)] else [])
     @ (case current_time of
          None \<Rightarrow> []
        | Some t \<Rightarrow> if t > LATENCY_THRESHOLD then [High_latency ip t] else [])"

section \<open>The resolver (\<^verbatim>\<open>validate_ip\<close>, lines 70-87) and the target list (lines 137-151)\<close>

text \<open>
  The two library calls are parameters: \<open>is_ip_address s\<close> holds when
  \<^verbatim>\<open>ipaddress.ip_address(s)\<close> returns (it raises \<^verbatim>\<open>ValueError\<close> otherwise), and
  \<open>gethostbyname s\<close> is the address \<^verbatim>\<open>socket.gethostbyname(s)\<close> returns or the
  exception it raises.
\<close>

record resolver =
  is_ip_address :: "string \<Rightarrow> bool"
  gethostbyname :: "string \<Rightarrow> py_exception + string"

definition validate_ip :: "resolver \<Rightarrow> string \<Rightarrow> py_exception + string option" where
  "validate_ip env ip_or_domain =
     (if is_ip_address env ip_or_domain then Inr (Some ip_or_domain)
      else case gethostbyname env ip_or_domain of
             Inr resolved_ip \<Rightarrow> Inr (Some resolved_ip)
           | Inl e \<Rightarrow> if e = Gaierror then Inr None else Inl e)"

text \<open>
  The loop over \<open>input_ips\<close>; \<^verbatim>\<open>if resolved_ip:\<close> is false for \<^verbatim>\<open>None\<close> and for the
  empty string.
\<close>

fun resolve_inputs :: "resolver \<Rightarrow> string list \<Rightarrow> ip_mappings \<Rightarrow> py_exception + ip_mappings" where
  "resolve_inputs env [] ip_mappings = Inr ip_mappings"
| "resolve_inputs env (ip_or_domain # rest) ip_mappings =
     (case validate_ip env ip_or_domain of
        Inl e \<Rightarrow> Inl e
      | Inr None \<Rightarrow> resolve_inputs env rest ip_mappings
      | Inr (Some resolved_ip) \<Rightarrow>
          if resolved_ip \<noteq> []
          then resolve_inputs env rest (ip_mappings @ [(ip_or_domain, resolved_ip)])
          else resolve_inputs env rest ip_mappings)"

text \<open>
  \<^verbatim>\<open>parse_arguments\<close> from line 137 on: \<open>input_ips\<close> is the list of positional arguments
  followed by the entries read from the file. \<^verbatim>\<open>parser.error\<close> prints the message and
  leaves the process with \<open>SystemExit\<close>.
\<close>

definition parse_arguments :: "resolver \<Rightarrow> string list \<Rightarrow> py_exception + ip_mappings" where
  "parse_arguments env input_ips =
     (if input_ips = []
      then Inl (SystemExit ''No IPs provided. Use IP arguments or -f/--file with a valid IP file'')
      else case resolve_inputs env input_ips [] of
             Inl e \<Rightarrow> Inl e
           | Inr ip_mappings \<Rightarrow>
               if ip_mappings = []
               then Inl (SystemExit ''No valid IP addresses or domains provided'')
               else Inr ip_mappings)"

text \<open>
  A resolver for the examples: \<^verbatim>\<open>8.8.8.8\<close> and \<^verbatim>\<open>127.0.0.1\<close> are literal addresses, the
  names \<^verbatim>\<open>dns.google\<close> and \<^verbatim>\<open>localhost\<close> resolve, and the name \<^verbatim>\<open>a..b\<close>, which has an
  empty label, makes the lookup raise \<^verbatim>\<open>UnicodeError\<close> while it encodes the name; every
  other name fails to resolve.
\<close>

definition example_resolver :: resolver where
  "example_resolver =
     \<lparr>is_ip_address = (\<lambda>s. s = ''8.8.8.8'' \<or> s = ''127.0.0.1''),
      gethostbyname = (\<lambda>s. if s = ''dns.google'' then Inr ''8.8.4.4''
                           else if s = ''localhost'' then Inr ''127.0.0.1''
                           else if s = ''a..b'' then Inl UnicodeError
                           else Inl Gaierror)\<rparr>"

section \<open>Invariants of the history store\<close>

text \<open>The window of a history holds at most \<open>MAX_HISTORY\<close> outcomes and was created with that bound.\<close>

definition window_ok :: "history \<Rightarrow> bool" where
  "window_ok h \<longleftrightarrow> length (items (pings h)) \<le> MAX_HISTORY \<and> maxlen (pings h) = MAX_HISTORY"

section \<open>Properties of dictionaries\<close>

lemma map_of_dict_setitem: "map_of (dict_setitem d k v) = (map_of d)(k \<mapsto> v)"
  by (induction d k v rule: dict_setitem.induct) (auto simp: fun_eq_iff)

lemma length_dict_setitem: "length (dict_setitem d k v) \<le> Suc (length d)"
  by (induction d k v rule: dict_setitem.induct) auto

lemma dict_getitem_Inr: "dict_getitem d k = Inr v \<longleftrightarrow> map_of d k = Some v"
  by (simp add: dict_getitem_def split: option.splits)

lemma dict_setitem_all:
  "\<forall>p \<in> set d. P (snd p) \<Longrightarrow> P v \<Longrightarrow> \<forall>p \<in> set (dict_setitem d k v). P (snd p)"
  by (induction d k v rule: dict_setitem.induct) auto

lemma keyset_dict_setitem: "fst ` set (dict_setitem d k v) = insert k (fst ` set d)"
  by (induction d k v rule: dict_setitem.induct) auto

lemma foldl_setitem_all:
  "\<forall>p \<in> set d. P (snd p) \<Longrightarrow> \<forall>p \<in> set kvs. P (snd p) \<Longrightarrow>
   \<forall>p \<in> set (foldl (\<lambda>d (k, v). dict_setitem d k v) d kvs). P (snd p)"
proof (induction kvs arbitrary: d)
  case Nil
  then show ?case by simp
next
  case (Cons kv kvs)
  obtain k v where kv: "kv = (k, v)" by (cases kv)
  from Cons.prems(2) have "P v" by (simp add: kv)
  with Cons.prems(1) have "\<forall>p \<in> set (dict_setitem d k v). P (snd p)"
    by (rule dict_setitem_all)
  with Cons show ?case by (simp add: kv)
qed

lemma foldl_setitem_keys:
  "fst ` set (foldl (\<lambda>d (k, v). dict_setitem d k v) d kvs) = fst ` set d \<union> fst ` set kvs"
proof (induction kvs arbitrary: d)
  case Nil
  then show ?case by simp
next
  case (Cons kv kvs)
  obtain k v where kv: "kv = (k, v)" by (cases kv)
  show ?case by (simp add: kv Cons.IH keyset_dict_setitem)
qed

lemma foldl_setitem_length:
  "length (foldl (\<lambda>d (k, v). dict_setitem d k v) d kvs) \<le> length d + length kvs"
proof (induction kvs arbitrary: d)
  case Nil
  then show ?case by simp
next
  case (Cons kv kvs)
  obtain k v where kv: "kv = (k, v)" by (cases kv)
  have "length (foldl (\<lambda>d (k, v). dict_setitem d k v) (dict_setitem d k v) kvs)
          \<le> length (dict_setitem d k v) + length kvs"
    by (rule Cons.IH)
  also have "\<dots> \<le> Suc (length d) + length kvs"
    using length_dict_setitem [of d k v] by simp
  finally show ?case by (simp add: kv)
qed

lemma dict_comprehension_all:
  "\<forall>p \<in> set kvs. P (snd p) \<Longrightarrow> \<forall>p \<in> set (dict_comprehension kvs). P (snd p)"
  unfolding dict_comprehension_def by (rule foldl_setitem_all) simp_all

lemma dict_comprehension_keys: "fst ` set (dict_comprehension kvs) = fst ` set kvs"
  unfolding dict_comprehension_def by (simp add: foldl_setitem_keys)

lemma dict_comprehension_length: "length (dict_comprehension kvs) \<le> length kvs"
  unfolding dict_comprehension_def using foldl_setitem_length [of "[]" kvs] by simp

section \<open>Properties of the recording loop\<close>

lemma init_histories_all: "P new_history \<Longrightarrow> \<forall>p \<in> set (init_histories m). P (snd p)"
  unfolding init_histories_def by (rule dict_comprehension_all) auto

lemma init_histories_keys: "fst ` set (init_histories m) = fst ` set m"
  unfolding init_histories_def by (force simp: dict_comprehension_keys)

lemma record_round_all:
  assumes step: "\<And>h r. P h \<Longrightarrow> P (record_result h r)"
  shows "\<forall>p \<in> set hs. P (snd p) \<Longrightarrow> record_round hs xs = Inr hs' \<Longrightarrow> \<forall>p \<in> set hs'. P (snd p)"
proof (induction hs xs rule: record_round.induct)
  case (1 hs)
  then show ?case by simp
next
  case (2 hs original result rest)
  from "2.prems"(2) obtain h where h: "dict_getitem hs original = Inr h"
    and rest: "record_round (dict_setitem hs original (record_result h result)) rest = Inr hs'"
    by (auto split: sum.splits)
  from h have "(original, h) \<in> set hs"
    by (simp add: dict_getitem_Inr map_of_SomeD)
  with "2.prems"(1) have "P h" by fastforce
  then have "P (record_result h result)" by (rule step)
  with "2.prems"(1) have "\<forall>p \<in> set (dict_setitem hs original (record_result h result)). P (snd p)"
    by (rule dict_setitem_all)
  with "2.IH" [OF h] rest show ?case by blast
qed

lemma rounds_from_all:
  assumes step: "\<And>h r. P h \<Longrightarrow> P (record_result h r)"
  shows "\<forall>p \<in> set hs. P (snd p) \<Longrightarrow> rounds_from w m t hs envs = Inr hs' \<Longrightarrow> \<forall>p \<in> set hs'. P (snd p)"
proof (induction envs arbitrary: hs)
  case Nil
  then show ?case by simp
next
  case (Cons env envs)
  from Cons.prems(2) obtain hs1 where s1: "round_step w m t hs env = Inr hs1"
    and r: "rounds_from w m t hs1 envs = Inr hs'"
    by (auto split: sum.splits)
  from s1 obtain mapped where "record_round hs mapped = Inr hs1"
    by (auto simp: round_step_def split: sum.splits)
  with Cons.prems(1) have "\<forall>p \<in> set hs1. P (snd p)"
    using record_round_all [of P, OF step] by blast
  with Cons.IH r show ?case by blast
qed

lemma main_rounds_all:
  assumes "P new_history" and "\<And>h r. P h \<Longrightarrow> P (record_result h r)"
    and "main_rounds w m t envs = Inr hs"
  shows "\<forall>p \<in> set hs. P (snd p)"
  using rounds_from_all [of P, OF assms(2)] init_histories_all [of P m, OF assms(1)] assms(3)
  unfolding main_rounds_def by blast

lemma record_result_total: "total_packets (record_result h r) = total_packets h + 1"
  by (simp add: record_result_def Let_def)

lemma record_result_counters:
  "total_packets h = success_packets h + failed_packets h \<Longrightarrow>
   total_packets (record_result h r) = success_packets (record_result h r) + failed_packets (record_result h r)"
  by (simp add: record_result_def Let_def)

lemma record_round_total_mono:
  "record_round hs xs = Inr hs' \<Longrightarrow> map_of hs k = Some h \<Longrightarrow>
   \<exists>h'. map_of hs' k = Some h' \<and> total_packets h \<le> total_packets h'"
proof (induction hs xs arbitrary: h rule: record_round.induct)
  case (1 hs)
  then show ?case by auto
next
  case (2 hs original result rest)
  from "2.prems"(1) obtain g where g: "dict_getitem hs original = Inr g"
    and rest: "record_round (dict_setitem hs original (record_result g result)) rest = Inr hs'"
    by (auto split: sum.splits)
  let ?hs1 = "dict_setitem hs original (record_result g result)"
  have "\<exists>h1. map_of ?hs1 k = Some h1 \<and> total_packets h \<le> total_packets h1"
  proof (cases "k = original")
    case True
    with g "2.prems"(2) have "g = h" by (simp add: dict_getitem_Inr)
    with True show ?thesis by (simp add: map_of_dict_setitem record_result_total)
  next
    case False
    with "2.prems"(2) show ?thesis by (simp add: map_of_dict_setitem)
  qed
  then obtain h1 where h1: "map_of ?hs1 k = Some h1" and le1: "total_packets h \<le> total_packets h1"
    by blast
  from "2.IH" [OF g rest h1] obtain h' where "map_of hs' k = Some h'" "total_packets h1 \<le> total_packets h'"
    by blast
  with le1 show ?case by force
qed


lemma round_step_total_mono:
  assumes "round_step w m t hs env = Inr hs'" and "dict_getitem hs k = Inr h"
  shows "\<exists>h'. dict_getitem hs' k = Inr h' \<and> total_packets h \<le> total_packets h'"
proof -
  from assms(1) obtain mapped where "record_round hs mapped = Inr hs'"
    by (auto simp: round_step_def split: sum.splits)
  with assms(2) show ?thesis
    using record_round_total_mono [of hs mapped hs' k h] by (simp add: dict_getitem_Inr)
qed

lemma deque_append_maxlen: "maxlen (deque_append d x) = maxlen d"
  by (simp add: deque_append_def Let_def)

lemma deque_append_bounded:
  "length (items d) \<le> maxlen d \<Longrightarrow> length (items (deque_append d x)) \<le> maxlen d"
  by (auto simp: deque_append_def Let_def)

lemma deque_append_full:
  "items d = oldest # rest \<Longrightarrow> length (items d) = maxlen d \<Longrightarrow> items (deque_append d x) = rest @ [x]"
  by (simp add: deque_append_def Let_def)

lemma deque_append_room:
  "length (items d) < maxlen d \<Longrightarrow> items (deque_append d x) = items d @ [x]"
  by (simp add: deque_append_def Let_def)

lemma record_result_pings: "pings (record_result h r) = deque_append (pings h) r"
  by (simp add: record_result_def Let_def)


lemma window_ok_new: "window_ok new_history"
  by (simp add: window_ok_def new_history_def deque_new_def)

lemma window_ok_record: "window_ok h \<Longrightarrow> window_ok (record_result h r)"
  using deque_append_bounded [of "pings h" r]
  by (simp add: window_ok_def record_result_pings deque_append_maxlen)

lemma foldl_record_window:
  "maxlen (pings (foldl record_result h rs)) = maxlen (pings h) \<and>
   items (pings (foldl record_result h rs)) =
     drop (length (items (pings h)) + length rs - maxlen (pings h)) (items (pings h) @ rs)"
  if "length (items (pings h)) \<le> maxlen (pings h)"
  using that
proof (induction rs arbitrary: h)
  case Nil
  then show ?case by simp
next
  case (Cons r rs)
  let ?h = "record_result h r"
  have b: "length (items (pings ?h)) \<le> maxlen (pings ?h)"
    using Cons.prems deque_append_bounded [of "pings h" r]
    by (simp add: record_result_pings deque_append_maxlen)
  have m: "maxlen (pings ?h) = maxlen (pings h)"
    by (simp add: record_result_pings deque_append_maxlen)
  show ?case
  proof (cases "length (items (pings h)) < maxlen (pings h)")
    case True
    then have i: "items (pings ?h) = items (pings h) @ [r]"
      by (simp add: record_result_pings deque_append_room)
    from Cons.IH [OF b] show ?thesis by (simp add: m i)
  next
    case False
    with Cons.prems have full: "length (items (pings h)) = maxlen (pings h)" by simp
    show ?thesis
    proof (cases "items (pings h)")
      case Nil
      with full have z: "maxlen (pings h) = 0" by simp
      have i: "items (pings ?h) = []"
        by (simp add: record_result_pings deque_append_def Let_def Nil z)
      from Cons.IH [OF b] show ?thesis by (simp add: m i Nil z)
    next
      case (Cons oldest rest)
      then have i: "items (pings ?h) = rest @ [r]"
        using full by (simp add: record_result_pings deque_append_full)
      from Cons full have n: "maxlen (pings h) = Suc (length rest)" by simp
      from Cons.IH [OF b] show ?thesis by (simp add: m i Cons n)
    qed
  qed
qed

text \<open>
  Claim C1. After any number of rounds, every target's history has
  \<open>total_packets = success_packets + failed_packets\<close>; recording one outcome adds exactly one
  to \<open>total_packets\<close>, and a round never lowers the \<open>total_packets\<close> of any target.
\<close>

theorem lifetime_counters:
  "(main_rounds windows m timeout envs = Inr hs \<longrightarrow>
      (\<forall>(target, h) \<in> set hs. total_packets h = success_packets h + failed_packets h))
   \<and> total_packets (record_result h result) = total_packets h + 1
   \<and> (round_step windows m timeout hs0 env = Inr hs1 \<longrightarrow> dict_getitem hs0 target = Inr h0 \<longrightarrow>
        (\<exists>h1. dict_getitem hs1 target = Inr h1 \<and> total_packets h0 \<le> total_packets h1))"
proof (intro conjI impI)
  assume run: "main_rounds windows m timeout envs = Inr hs"
  have "\<forall>p \<in> set hs. total_packets (snd p) = success_packets (snd p) + failed_packets (snd p)"
  proof (rule main_rounds_all [OF _ _ run])
    show "total_packets new_history = success_packets new_history + failed_packets new_history"
      by (simp add: new_history_def)
  next
    fix h :: history and r
    assume "total_packets h = success_packets h + failed_packets h"
    then show "total_packets (record_result h r)
                 = success_packets (record_result h r) + failed_packets (record_result h r)"
      by (rule record_result_counters)
  qed
  then show "\<forall>(target, h) \<in> set hs. total_packets h = success_packets h + failed_packets h"
    by auto
next
  show "total_packets (record_result h result) = total_packets h + 1"
    by (rule record_result_total)
next
  assume "round_step windows m timeout hs0 env = Inr hs1" and "dict_getitem hs0 target = Inr h0"
  then show "\<exists>h1. dict_getitem hs1 target = Inr h1 \<and> total_packets h0 \<le> total_packets h1"
    by (rule round_step_total_mono)
qed

text \<open>
  Claim C2. After any number of rounds, every target's window holds at most 50 outcomes,
  50 being the bound it was created with. Recording into a window that is at its bound
  drops the oldest outcome and appends the new one; the window of a history is the last 50
  of the outcomes recorded into it, in order.
\<close>

theorem history_window:
  "(main_rounds windows m timeout envs = Inr hs \<longrightarrow>
      (\<forall>(target, h) \<in> set hs. length (items (pings h)) \<le> 50 \<and> maxlen (pings h) = 50))
   \<and> (items (pings h) = oldest # rest \<longrightarrow> length (items (pings h)) = maxlen (pings h) \<longrightarrow>
        items (pings (record_result h result)) = rest @ [result])
   \<and> items (pings (foldl record_result new_history results))
        = drop (length results - 50) results"
proof (intro conjI impI)
  assume run: "main_rounds windows m timeout envs = Inr hs"
  have "\<forall>p \<in> set hs. window_ok (snd p)"
    by (rule main_rounds_all [OF window_ok_new window_ok_record run])
  then show "\<forall>(target, h) \<in> set hs. length (items (pings h)) \<le> 50 \<and> maxlen (pings h) = 50"
    by (auto simp: window_ok_def MAX_HISTORY_def)
next
  assume "items (pings h) = oldest # rest" and "length (items (pings h)) = maxlen (pings h)"
  then show "items (pings (record_result h result)) = rest @ [result]"
    by (simp add: record_result_pings deque_append_full)
next
  have "length (items (pings new_history)) \<le> maxlen (pings new_history)"
    by (simp add: new_history_def deque_new_def)
  from foldl_record_window [OF this, of results]
  show "items (pings (foldl record_result new_history results)) = drop (length results - 50) results"
    by (simp add: new_history_def deque_new_def MAX_HISTORY_def)
qed


text \<open>Evaluation of rounds on concrete inputs.\<close>

lemmas round_eval =
  main_rounds_def round_step_def round_result_def ping_all_ips_def ping_data_mapped_def
  ping_ip_def ping_cmd_def init_histories_def dict_comprehension_def dict_values_def
  dict_getitem_def list_getitem_def record_result_def new_history_def deque_new_def
  deque_append_def MAX_HISTORY_def match_here_def number_group_def is_digit_def
  py_float_def digits_value_def digit_value_def enumerate_eq_zip Let_def

lemma example_two_rounds:
  "main_rounds False [(''a'', ''1.1.1.1'')] (Finite 2)
     [\<lambda>i cmd wait. Stdout ''time=1 ms'', \<lambda>i cmd wait. Raised TimeoutError]
   = Inr [(''a'', \<lparr>pings = \<lparr>items = [Some 1, None], maxlen = 50\<rparr>, total_packets = 2,
                   success_packets = 1, failed_packets = 1\<rparr>)]"
  by (simp add: round_eval)

lemma example_one_round:
  "round_step False [(''a'', ''1.1.1.1'')] (Finite 2) (init_histories [(''a'', ''1.1.1.1'')])
     (\<lambda>i cmd wait. Raised TimeoutError)
   = Inr [(''a'', \<lparr>pings = \<lparr>items = [None], maxlen = 50\<rparr>, total_packets = 1,
                   success_packets = 0, failed_packets = 1\<rparr>)]"
  by (simp add: round_eval)

theorem lifetime_counters_witness:
  "main_rounds False [(''a'', ''1.1.1.1'')] (Finite 2)
     [\<lambda>i cmd wait. Stdout ''time=1 ms'', \<lambda>i cmd wait. Raised TimeoutError]
   = Inr [(''a'', \<lparr>pings = \<lparr>items = [Some 1, None], maxlen = 50\<rparr>, total_packets = 2,
                   success_packets = 1, failed_packets = 1\<rparr>)]
   \<and> total_packets \<lparr>pings = \<lparr>items = [Some 1, None], maxlen = 50\<rparr>,
           total_packets = 2, success_packets = 1, failed_packets = 1\<rparr>
       = success_packets \<lparr>pings = \<lparr>items = [Some 1, None], maxlen = 50\<rparr>,
           total_packets = 2, success_packets = 1, failed_packets = 1\<rparr>
         + failed_packets \<lparr>pings = \<lparr>items = [Some 1, None], maxlen = 50\<rparr>,
           total_packets = 2, success_packets = 1, failed_packets = 1\<rparr>
   \<and> round_step False [(''a'', ''1.1.1.1'')] (Finite 2) (init_histories [(''a'', ''1.1.1.1'')])
        (\<lambda>i cmd wait. Raised TimeoutError)
      = Inr [(''a'', \<lparr>pings = \<lparr>items = [None], maxlen = 50\<rparr>, total_packets = 1,
                      success_packets = 0, failed_packets = 1\<rparr>)]
   \<and> dict_getitem (init_histories [(''a'', ''1.1.1.1'')]) ''a'' = Inr new_history
   \<and> (\<exists>h1. dict_getitem [(''a'', \<lparr>pings = \<lparr>items = [None], maxlen = 50\<rparr>, total_packets = 1,
                      success_packets = 0, failed_packets = 1\<rparr>)] ''a'' = Inr h1
          \<and> total_packets new_history \<le> total_packets h1)"
proof -
  have g: "dict_getitem (init_histories [(''a'', ''1.1.1.1'')]) ''a'' = Inr new_history"
    by (simp add: init_histories_def dict_comprehension_def dict_getitem_def)
  show ?thesis
    using lifetime_counters [where windows = False and m = "[(''a'', ''1.1.1.1'')]" and timeout = "Finite 2"
        and envs = "[\<lambda>i cmd wait. Stdout ''time=1 ms'', \<lambda>i cmd wait. Raised TimeoutError]"
        and hs = "[(''a'', \<lparr>pings = \<lparr>items = [Some 1, None], maxlen = 50\<rparr>, total_packets = 2,
                   success_packets = 1, failed_packets = 1\<rparr>)]"
        and ?hs0.0 = "init_histories [(''a'', ''1.1.1.1'')]"
        and env = "\<lambda>i cmd wait. Raised TimeoutError"
        and ?hs1.0 = "[(''a'', \<lparr>pings = \<lparr>items = [None], maxlen = 50\<rparr>, total_packets = 1,
                      success_packets = 0, failed_packets = 1\<rparr>)]"
        and target = "''a''" and ?h0.0 = new_history]
      example_two_rounds example_one_round g
    by simp
qed

theorem history_window_witness:
  "main_rounds False [(''a'', ''1.1.1.1'')] (Finite 2)
     [\<lambda>i cmd wait. Stdout ''time=1 ms'', \<lambda>i cmd wait. Raised TimeoutError]
   = Inr [(''a'', \<lparr>pings = \<lparr>items = [Some 1, None], maxlen = 50\<rparr>, total_packets = 2,
                   success_packets = 1, failed_packets = 1\<rparr>)]
   \<and> length (items (pings \<lparr>pings = \<lparr>items = [Some 1, None], maxlen = 50\<rparr>,
           total_packets = 2, success_packets = 1, failed_packets = 1\<rparr>)) \<le> 50
   \<and> items (pings \<lparr>pings = \<lparr>items = Some 7 # replicate 49 None, maxlen = 50\<rparr>,
                    total_packets = 50, success_packets = 1, failed_packets = 49\<rparr>)
       = Some 7 # replicate 49 None
   \<and> length (items (pings \<lparr>pings = \<lparr>items = Some 7 # replicate 49 None, maxlen = 50\<rparr>,
                    total_packets = 50, success_packets = 1, failed_packets = 49\<rparr>))
       = maxlen (pings \<lparr>pings = \<lparr>items = Some 7 # replicate 49 None, maxlen = 50\<rparr>,
                    total_packets = 50, success_packets = 1, failed_packets = 49\<rparr>)
   \<and> items (pings (record_result \<lparr>pings = \<lparr>items = Some 7 # replicate 49 None, maxlen = 50\<rparr>,
                    total_packets = 50, success_packets = 1, failed_packets = 49\<rparr> (Some 9)))
       = replicate 49 None @ [Some 9]"
  using history_window [where windows = False and m = "[(''a'', ''1.1.1.1'')]" and timeout = "Finite 2"
      and envs = "[\<lambda>i cmd wait. Stdout ''time=1 ms'', \<lambda>i cmd wait. Raised TimeoutError]"
      and hs = "[(''a'', \<lparr>pings = \<lparr>items = [Some 1, None], maxlen = 50\<rparr>, total_packets = 2,
                   success_packets = 1, failed_packets = 1\<rparr>)]"
      and h = "\<lparr>pings = \<lparr>items = Some 7 # replicate 49 None, maxlen = 50\<rparr>,
                    total_packets = 50, success_packets = 1, failed_packets = 49\<rparr>"
      and oldest = "Some 7" and rest = "replicate 49 None" and result = "Some 9"]
    example_two_rounds
  by simp

section \<open>Properties of the statistics and the alerts\<close>

lemma foldl_min_Min:
  "foldl (\<lambda>m y. if y < m then y else m) (x::real) xs = Min (insert x (set xs))"
proof (induction xs arbitrary: x)
  case Nil
  then show ?case by simp
next
  case (Cons y ys)
  have "Min (insert (if y < x then y else x) (set ys)) = Min (insert x (insert y (set ys)))"
    by (cases "set ys = {}") (auto simp: min_def)
  with Cons show ?case by simp
qed

lemma foldl_max_Max:
  "foldl (\<lambda>m y. if m < y then y else m) (x::real) xs = Max (insert x (set xs))"
proof (induction xs arbitrary: x)
  case Nil
  then show ?case by simp
next
  case (Cons y ys)
  have "Max (insert (if x < y then y else x) (set ys)) = Max (insert x (insert y (set ys)))"
    by (cases "set ys = {}") (auto simp: max_def)
  with Cons show ?case by simp
qed

lemma py_min_Min: "xs \<noteq> [] \<Longrightarrow> py_min xs = Inr (Min (set xs))"
  by (cases xs) (simp_all add: foldl_min_Min)

lemma py_max_Max: "xs \<noteq> [] \<Longrightarrow> py_max xs = Inr (Max (set xs))"
  by (cases xs) (simp_all add: foldl_max_Max)

lemma foldl_add_sum_list: "foldl (\<lambda>acc x. acc + x) (a::real) xs = a + sum_list xs"
  by (induction xs arbitrary: a) simp_all

lemma py_sum_sum_list: "py_sum xs = sum_list xs"
  by (simp add: py_sum_def foldl_add_sum_list)

lemma statistics_median_nonempty:
  "xs \<noteq> [] \<Longrightarrow> statistics_median xs =
     Inr (if odd (length xs) then sort xs ! (length xs div 2)
          else (sort xs ! (length xs div 2 - 1) + sort xs ! (length xs div 2)) / 2)"
proof -
  assume "xs \<noteq> []"
  then have "length (sort xs) \<noteq> 0" by simp
  then show ?thesis
    by (simp add: statistics_median_def Let_def odd_iff_mod_2_eq_one del: length_0_conv)
qed

lemma valid_pings_filter: "valid_pings xs = map the (filter (\<lambda>x. x \<noteq> None) xs)"
  unfolding valid_pings_def by (induction xs) (auto split: option.splits)

lemma valid_pings_length:
  "length (valid_pings xs) + length (filter (\<lambda>x. x = None) xs) = length xs"
  unfolding valid_pings_def by (induction xs) (auto split: option.splits)

lemma valid_pings_empty: "valid_pings xs = [] \<longleftrightarrow> length (filter (\<lambda>x. x \<noteq> None) xs) = 0"
  by (simp add: valid_pings_filter)

lemma calculate_statistics_valid:
  assumes "valid_pings (items history) \<noteq> []"
  shows "calculate_statistics history =
     Inr \<lparr>stats_min = Some (Min (set (valid_pings (items history)))),
          stats_max = Some (Max (set (valid_pings (items history)))),
          stats_avg = Some (sum_list (valid_pings (items history))
                              / real (length (valid_pings (items history)))),
          stats_median = Some
            (if odd (length (valid_pings (items history)))
             then sort (valid_pings (items history)) ! (length (valid_pings (items history)) div 2)
             else (sort (valid_pings (items history)) ! (length (valid_pings (items history)) div 2 - 1)
                   + sort (valid_pings (items history)) ! (length (valid_pings (items history)) div 2)) / 2),
          stats_loss = (1 - real (length (valid_pings (items history)))
                              / real (length (items history))) * 100\<rparr>"
  using assms
  by (simp add: calculate_statistics_def Let_def py_min_Min py_max_Max py_sum_sum_list
      statistics_median_nonempty)

lemma calculate_statistics_none:
  "valid_pings (items history) = [] \<Longrightarrow>
   calculate_statistics history =
     Inr \<lparr>stats_min = None, stats_max = None, stats_avg = None, stats_median = None,
          stats_loss = 100\<rparr>"
  by (simp add: calculate_statistics_def Let_def)

lemma loss_fraction:
  assumes "xs \<noteq> []"
  shows "(1 - real (length (valid_pings xs)) / real (length xs)) * 100
         = real (length (filter (\<lambda>x. x = None) xs)) / real (length xs) * 100"
proof -
  have "real (length xs) = real (length (valid_pings xs)) + real (length (filter (\<lambda>x. x = None) xs))"
    using valid_pings_length [of xs] by linarith
  moreover from assms have "real (length xs) \<noteq> 0" by simp
  ultimately show ?thesis by (simp add: field_simps)
qed

text \<open>
  Claim C3. The latency statistics are those of the non-failed entries of the window
  (\<open>valid_pings\<close>): their minimum, maximum, arithmetic mean and median. For a window that
  is not empty the loss is the number of failed entries divided by the number of entries,
  times 100 (for the empty window that quotient is undefined; the program reports 100, see
  C4). The window 10, 20, 30, failure gives loss 25, min 10, max 30, avg 20, median 20.
\<close>

theorem window_statistics:
  "(items history \<noteq> [] \<longrightarrow>
      (\<exists>s. calculate_statistics history = Inr s
         \<and> stats_loss s = real (length (filter (\<lambda>x. x = None) (items history)))
                            / real (length (items history)) * 100))
   \<and> (valid_pings (items history) \<noteq> [] \<longrightarrow>
      (\<exists>s. calculate_statistics history = Inr s
         \<and> stats_min s = Some (Min (set (valid_pings (items history))))
         \<and> stats_max s = Some (Max (set (valid_pings (items history))))
         \<and> stats_avg s = Some (sum_list (valid_pings (items history))
                                  / real (length (valid_pings (items history))))
         \<and> stats_median s = Some
             (if odd (length (valid_pings (items history)))
              then sort (valid_pings (items history)) ! (length (valid_pings (items history)) div 2)
              else (sort (valid_pings (items history)) ! (length (valid_pings (items history)) div 2 - 1)
                    + sort (valid_pings (items history)) ! (length (valid_pings (items history)) div 2)) / 2)))
   \<and> valid_pings (items history) = map the (filter (\<lambda>x. x \<noteq> None) (items history))
   \<and> calculate_statistics \<lparr>items = [Some 10, Some 20, Some 30, None], maxlen = 50\<rparr>
       = Inr \<lparr>stats_min = Some 10, stats_max = Some 30, stats_avg = Some 20,
              stats_median = Some 20, stats_loss = 25\<rparr>"
proof (intro conjI impI)
  assume ne: "items history \<noteq> []"
  show "\<exists>s. calculate_statistics history = Inr s
         \<and> stats_loss s = real (length (filter (\<lambda>x. x = None) (items history)))
                            / real (length (items history)) * 100"
  proof (cases "valid_pings (items history) = []")
    case True
    then have "length (filter (\<lambda>x. x = None) (items history)) = length (items history)"
      using valid_pings_length [of "items history"] by simp
    with ne True show ?thesis by (simp add: calculate_statistics_none)
  next
    case False
    then have "calculate_statistics history = Inr \<lparr>stats_min = Some (Min (set (valid_pings (items history)))),
          stats_max = Some (Max (set (valid_pings (items history)))),
          stats_avg = Some (sum_list (valid_pings (items history))
                              / real (length (valid_pings (items history)))),
          stats_median = Some
            (if odd (length (valid_pings (items history)))
             then sort (valid_pings (items history)) ! (length (valid_pings (items history)) div 2)
             else (sort (valid_pings (items history)) ! (length (valid_pings (items history)) div 2 - 1)
                   + sort (valid_pings (items history)) ! (length (valid_pings (items history)) div 2)) / 2),
          stats_loss = (1 - real (length (valid_pings (items history)))
                              / real (length (items history))) * 100\<rparr>"
      by (rule calculate_statistics_valid)
    then show ?thesis unfolding loss_fraction [OF ne] by simp
  qed
next
  assume "valid_pings (items history) \<noteq> []"
  then show "\<exists>s. calculate_statistics history = Inr s
         \<and> stats_min s = Some (Min (set (valid_pings (items history))))
         \<and> stats_max s = Some (Max (set (valid_pings (items history))))
         \<and> stats_avg s = Some (sum_list (valid_pings (items history))
                                  / real (length (valid_pings (items history))))
         \<and> stats_median s = Some
             (if odd (length (valid_pings (items history)))
              then sort (valid_pings (items history)) ! (length (valid_pings (items history)) div 2)
              else (sort (valid_pings (items history)) ! (length (valid_pings (items history)) div 2 - 1)
                    + sort (valid_pings (items history)) ! (length (valid_pings (items history)) div 2)) / 2)"
    by (simp add: calculate_statistics_valid)
next
  show "valid_pings (items history) = map the (filter (\<lambda>x. x \<noteq> None) (items history))"
    by (rule valid_pings_filter)
next
  show "calculate_statistics \<lparr>items = [Some 10, Some 20, Some 30, None], maxlen = 50\<rparr>
       = Inr \<lparr>stats_min = Some 10, stats_max = Some 30, stats_avg = Some 20,
              stats_median = Some 20, stats_loss = 25\<rparr>"
    by (simp add: calculate_statistics_def valid_pings_def statistics_median_def py_sum_def)
qed

theorem window_statistics_witness:
  "items \<lparr>items = [Some 30, None, Some 10, Some 20, Some 5], maxlen = 50\<rparr> \<noteq> []
   \<and> valid_pings (items \<lparr>items = [Some 30, None, Some 10, Some 20, Some 5], maxlen = 50\<rparr>) \<noteq> []
   \<and> calculate_statistics \<lparr>items = [Some 30, None, Some 10, Some 20, Some 5], maxlen = 50\<rparr>
       = Inr \<lparr>stats_min = Some 5, stats_max = Some 30, stats_avg = Some (65 / 4),
              stats_median = Some 15, stats_loss = 20\<rparr>
   \<and> (\<exists>s. calculate_statistics \<lparr>items = [Some 30, None, Some 10, Some 20, Some 5], maxlen = 50\<rparr>
             = Inr s \<and> stats_loss s = 1 / 5 * 100 \<and> stats_min s = Some 5 \<and> stats_max s = Some 30)"
proof -
  have e: "calculate_statistics \<lparr>items = [Some 30, None, Some 10, Some 20, Some 5], maxlen = 50\<rparr>
       = Inr \<lparr>stats_min = Some 5, stats_max = Some 30, stats_avg = Some (65 / 4),
              stats_median = Some 15, stats_loss = 20\<rparr>"
    by (simp add: calculate_statistics_def valid_pings_def statistics_median_def py_sum_def)
  show ?thesis
    using window_statistics [of "\<lparr>items = [Some 30, None, Some 10, Some 20, Some 5], maxlen = 50\<rparr>"] e
    by (simp add: valid_pings_def)
qed

text \<open>
  Claim C4. A window with zero non-failure entries (the empty window included) yields
  statistics whose min, max, avg and median are absent and whose loss is exactly 100.
\<close>

theorem no_success_statistics:
  "length (filter (\<lambda>x. x \<noteq> None) (items history)) = 0 \<Longrightarrow>
   calculate_statistics history =
     Inr \<lparr>stats_min = None, stats_max = None, stats_avg = None, stats_median = None,
          stats_loss = 100\<rparr>"
  by (simp add: calculate_statistics_none valid_pings_empty)

theorem no_success_statistics_witness:
  "length (filter (\<lambda>x. x \<noteq> None) (items \<lparr>items = [None, None, None :: outcome], maxlen = 50\<rparr>)) = 0
   \<and> calculate_statistics \<lparr>items = [None, None, None], maxlen = 50\<rparr> =
     Inr \<lparr>stats_min = None, stats_max = None, stats_avg = None, stats_median = None,
          stats_loss = 100\<rparr>"
  using no_success_statistics [of "\<lparr>items = [None, None, None], maxlen = 50\<rparr>"]
  by simp

text \<open>
  Claim C5. The row of a target is followed by the loss warning exactly when the loss of
  its window is strictly greater than 20, and by the latency warning exactly when the
  latest round gave a latency strictly greater than 200. A loss of exactly 20 together
  with a latest latency of exactly 200 gives no warning; so does the window with one
  failure in five entries.
\<close>

theorem alert_thresholds:
  "(High_packet_loss ip (stats_loss s) \<in> set (row_warnings ip s current_time) \<longleftrightarrow> stats_loss s > 20)
   \<and> ((\<exists>t. High_latency ip t \<in> set (row_warnings ip s current_time))
        \<longleftrightarrow> (\<exists>t. current_time = Some t \<and> t > 200))
   \<and> row_warnings ip (s\<lparr>stats_loss := 20\<rparr>) (Some 200) = []
   \<and> (\<exists>s'. calculate_statistics \<lparr>items = [Some 200, Some 1, None, Some 1, Some 200], maxlen = 50\<rparr>
              = Inr s' \<and> stats_loss s' = 20 \<and> row_warnings ip s' (Some 200) = [])"
proof (intro conjI)
  show "High_packet_loss ip (stats_loss s) \<in> set (row_warnings ip s current_time) \<longleftrightarrow> stats_loss s > 20"
    by (auto simp: row_warnings_def LOSS_THRESHOLD_def split: option.splits if_splits)
next
  show "(\<exists>t. High_latency ip t \<in> set (row_warnings ip s current_time))
        \<longleftrightarrow> (\<exists>t. current_time = Some t \<and> t > 200)"
    by (auto simp: row_warnings_def LATENCY_THRESHOLD_def split: option.splits if_splits)
next
  show "row_warnings ip (s\<lparr>stats_loss := 20\<rparr>) (Some 200) = []"
    by (simp add: row_warnings_def LOSS_THRESHOLD_def LATENCY_THRESHOLD_def)
next
  show "\<exists>s'. calculate_statistics \<lparr>items = [Some 200, Some 1, None, Some 1, Some 200], maxlen = 50\<rparr>
              = Inr s' \<and> stats_loss s' = 20 \<and> row_warnings ip s' (Some 200) = []"
    by (simp add: calculate_statistics_def valid_pings_def statistics_median_def py_sum_def
        row_warnings_def LOSS_THRESHOLD_def LATENCY_THRESHOLD_def)
qed

section \<open>Properties of the resolver, the target list and the probe command\<close>

text \<open>
  What the resolver does where it returns: a literal address is returned unchanged, the
  address found for any other input is returned, and \<^verbatim>\<open>socket.gaierror\<close> gives \<^verbatim>\<open>None\<close>,
  for which the loop of \<^verbatim>\<open>parse_arguments\<close> adds no target.
\<close>

lemma validate_ip_cases:
  "(is_ip_address env x \<longrightarrow> validate_ip env x = Inr (Some x))
   \<and> (\<not> is_ip_address env x \<longrightarrow> gethostbyname env x = Inr a \<longrightarrow> validate_ip env x = Inr (Some a))
   \<and> (\<not> is_ip_address env x \<longrightarrow> gethostbyname env x = Inl Gaierror \<longrightarrow> validate_ip env x = Inr None)
   \<and> (validate_ip env x = Inr None \<longrightarrow>
        resolve_inputs env (x # rest) ip_mappings = resolve_inputs env rest ip_mappings)"
  by (simp add: validate_ip_def)

text \<open>
  Any other exception of the lookup leaves \<^verbatim>\<open>validate_ip\<close> and the loop of
  \<^verbatim>\<open>parse_arguments\<close>.
\<close>

lemma validate_ip_raises:
  "\<not> is_ip_address env x \<Longrightarrow> gethostbyname env x = Inl e \<Longrightarrow> e \<noteq> Gaierror \<Longrightarrow>
   validate_ip env x = Inl e \<and> resolve_inputs env (x # rest) ip_mappings = Inl e"
  by (simp add: validate_ip_def)

text \<open>
  Claim C8 fails on the program. The docstring of \<^verbatim>\<open>validate_ip\<close> promises \<^verbatim>\<open>None\<close> for an
  invalid input, but the handler around the lookup catches \<^verbatim>\<open>socket.gaierror\<close> only. For
  the name \<^verbatim>\<open>a..b\<close> the lookup raises \<^verbatim>\<open>UnicodeError\<close>; \<^verbatim>\<open>validate_ip\<close> raises it in turn,
  and \<^verbatim>\<open>parse_arguments\<close> ends with that exception instead of leaving the input out.
\<close>

theorem validate_ip_uncaught_exception:
  "\<not> is_ip_address example_resolver ''a..b''
   \<and> gethostbyname example_resolver ''a..b'' = Inl UnicodeError
   \<and> validate_ip example_resolver ''a..b'' = Inl UnicodeError
   \<and> parse_arguments example_resolver [''8.8.8.8'', ''a..b''] = Inl UnicodeError"
  by (simp add: parse_arguments_def validate_ip_def example_resolver_def)






lemma py_int_nonneg: "0 \<le> t \<Longrightarrow> py_int t = \<lfloor>t\<rfloor>"
  by (simp add: py_int_def)

lemma py_int_nonpos: "t \<le> 0 \<Longrightarrow> py_int t = \<lceil>t\<rceil>"
  by (auto simp: py_int_def ceiling_def)

lemma py_int_abs_le: "\<bar>real_of_int (py_int t)\<bar> \<le> \<bar>t\<bar>"
proof (cases "t < 0")
  case True
  have "real_of_int \<lfloor>- t\<rfloor> \<le> - t" by (rule of_int_floor_le)
  moreover from True have "0 \<le> \<lfloor>- t\<rfloor>" by simp
  ultimately show ?thesis using True by (simp add: py_int_def)
next
  case False
  have "real_of_int \<lfloor>t\<rfloor> \<le> t" by (rule of_int_floor_le)
  moreover from False have "0 \<le> \<lfloor>t\<rfloor>" by simp
  ultimately show ?thesis using False by (simp add: py_int_def)
qed

lemma py_int_close: "\<bar>t - real_of_int (py_int t)\<bar> < 1"
proof (cases "t < 0")
  case True
  have a: "real_of_int \<lfloor>- t\<rfloor> \<le> - t" and b: "- t < real_of_int \<lfloor>- t\<rfloor> + 1"
    using floor_correct [of "- t"] by simp_all
  from True have "t - real_of_int (py_int t) = t + real_of_int \<lfloor>- t\<rfloor>"
    by (simp add: py_int_def)
  with a b show ?thesis by linarith
next
  case False
  have a: "real_of_int \<lfloor>t\<rfloor> \<le> t" and b: "t < real_of_int \<lfloor>t\<rfloor> + 1"
    using floor_correct [of t] by simp_all
  from False have "t - real_of_int (py_int t) = t - real_of_int \<lfloor>t\<rfloor>"
    by (simp add: py_int_def)
  with a b show ?thesis by linarith
qed

lemma py_int_small: "- 1 < t \<Longrightarrow> t < 1 \<Longrightarrow> py_int t = 0"
proof (cases "t < 0")
  case True
  assume "- 1 < t"
  with True have "\<lfloor>- t\<rfloor> = 0" by (simp add: floor_eq_iff)
  with True show ?thesis by (simp add: py_int_def)
next
  case False
  assume "t < 1"
  with False have "\<lfloor>t\<rfloor> = 0" by (simp add: floor_eq_iff)
  with False show ?thesis by (simp add: py_int_def)
qed

text \<open>
  Claim C10, as amended. For a finite timeout, the probe depends on the subprocess only
  through the command line it builds and the bound \<open>timeout + 1\<close> it waits for. The timeout
  written into the command line is \<open>timeout\<close> truncated toward zero: its distance to \<open>timeout\<close> is below 1 and
  its absolute value does not exceed that of \<open>timeout\<close>; it is the floor of a non-negative
  \<open>timeout\<close>, the ceiling of a non-positive one, and 0 exactly when \<open>timeout\<close> lies strictly
  between -1 and 1.
\<close>

theorem ping_timeouts:
  "ping_ip windows run ip (Finite timeout)
     = ping_ip windows (\<lambda>cmd wait. run (ping_cmd windows ip timeout) (timeout + 1)) ip
         (Finite timeout)
   \<and> ping_cmd windows ip timeout
       = ''ping '' @ (if windows then ''-n'' else ''-c'') @ '' 1 ''
           @ (if windows then ''-w'' else ''-W'') @ '' '' @ str_int (py_int timeout) @ '' '' @ ip
   \<and> \<bar>real_of_int (py_int timeout)\<bar> \<le> \<bar>timeout\<bar>
   \<and> \<bar>timeout - real_of_int (py_int timeout)\<bar> < 1
   \<and> (0 \<le> timeout \<longrightarrow> py_int timeout = \<lfloor>timeout\<rfloor>)
   \<and> (timeout \<le> 0 \<longrightarrow> py_int timeout = \<lceil>timeout\<rceil>)
   \<and> (- 1 < timeout \<longrightarrow> timeout < 1 \<longrightarrow> py_int timeout = 0)
   \<and> (py_int timeout = 0 \<longrightarrow> - 1 < timeout \<and> timeout < 1)"
proof (intro conjI impI)
  show "ping_ip windows run ip (Finite timeout)
     = ping_ip windows (\<lambda>cmd wait. run (ping_cmd windows ip timeout) (timeout + 1)) ip
         (Finite timeout)"
    by (simp add: ping_ip_def)
  show "ping_cmd windows ip timeout
       = ''ping '' @ (if windows then ''-n'' else ''-c'') @ '' 1 ''
           @ (if windows then ''-w'' else ''-W'') @ '' '' @ str_int (py_int timeout) @ '' '' @ ip"
    by (simp add: ping_cmd_def)
  show "\<bar>real_of_int (py_int timeout)\<bar> \<le> \<bar>timeout\<bar>"
    by (rule py_int_abs_le)
  show "\<bar>timeout - real_of_int (py_int timeout)\<bar> < 1"
    by (rule py_int_close)
next
  assume "0 \<le> timeout"
  then show "py_int timeout = \<lfloor>timeout\<rfloor>" by (rule py_int_nonneg)
next
  assume "timeout \<le> 0"
  then show "py_int timeout = \<lceil>timeout\<rceil>" by (rule py_int_nonpos)
next
  assume "- 1 < timeout" and "timeout < 1"
  then show "py_int timeout = 0"
    by (rule py_int_small)
next
  assume z: "py_int timeout = 0"
  with py_int_close [of timeout] show "- 1 < timeout" by simp
  from z py_int_close [of timeout] show "timeout < 1" by simp
qed

theorem ping_timeouts_witness:
  "(0::real) \<le> 5 / 2 \<and> py_int (5 / 2) = \<lfloor>5 / 2 :: real\<rfloor> \<and> py_int (5 / 2) = 2
   \<and> (- 5 / 2 :: real) \<le> 0 \<and> py_int (- 5 / 2) = \<lceil>- 5 / 2 :: real\<rceil> \<and> py_int (- 5 / 2) = - 2
   \<and> (- 1 :: real) < 1 / 2 \<and> (1 / 2 :: real) < 1 \<and> py_int (1 / 2) = 0
   \<and> ping_cmd False ''8.8.8.8'' (5 / 2) = ''ping -c 1 -W 2 8.8.8.8''"
  using ping_timeouts [of False _ "''8.8.8.8''" "5 / 2"] ping_timeouts [of False _ "''8.8.8.8''" "- 5 / 2"]
    ping_timeouts [of False _ "''8.8.8.8''" "1 / 2"]
  by (simp add: digit_char_def str_int_def)

text \<open>
  Claim C10 as stated fails: the timeout -3 is below 1 and is handed to the utility as -3.
\<close>

theorem negative_timeout_not_zero:
  "(- 3 :: real) < 1 \<and> py_int (- 3) = - 3 \<and> py_int (- 3) \<noteq> 0
   \<and> ping_cmd False ''8.8.8.8'' (- 3) = ''ping -c 1 -W -3 8.8.8.8''"
  by (simp add: py_int_def ping_cmd_def str_int_def digit_char_def)

section \<open>Failed probes\<close>

text \<open>
  With a finite timeout a probe returns the failure outcome \<^verbatim>\<open>None\<close> when its subprocess
  raises an exception derived from \<^verbatim>\<open>Exception\<close> or prints no time field, and recording a
  failure counts it. With a timeout that is not finite the probe raises before its
  \<^verbatim>\<open>try\<close>. When the timeout is finite and no subprocess raises anything outside
  \<^verbatim>\<open>Exception\<close>, no round raises.
\<close>

lemma ping_ip_not_finite:
  "ping_ip windows run ip NaN = Inl ValueError"
  "ping_ip windows run ip PosInf = Inl OverflowError"
  "ping_ip windows run ip NegInf = Inl OverflowError"
  by (simp_all add: ping_ip_def)

lemma ping_ip_Raised:
  "is_Exception e \<Longrightarrow> run (ping_cmd windows ip timeout) (timeout + 1) = Raised e \<Longrightarrow>
   ping_ip windows run ip (Finite timeout) = Inr None"
  by (simp add: ping_ip_def)

lemma ping_ip_no_match:
  "run (ping_cmd windows ip timeout) (timeout + 1) = Stdout stdout \<Longrightarrow> re_search stdout = None \<Longrightarrow>
   ping_ip windows run ip (Finite timeout) = Inr None"
  by (simp add: ping_ip_def)

lemma ping_ip_returns:
  "(\<And>e. run (ping_cmd windows ip timeout) (timeout + 1) = Raised e \<Longrightarrow> is_Exception e) \<Longrightarrow>
   \<exists>r. ping_ip windows run ip (Finite timeout) = Inr r"
  by (cases "run (ping_cmd windows ip timeout) (timeout + 1)")
     (auto simp: ping_ip_def split: option.splits)

lemma gather_returns:
  "\<forall>x \<in> set ts. \<exists>v. x = Inr v \<Longrightarrow> \<exists>vs. gather ts = Inr vs \<and> length vs = length ts"
proof (induction ts)
  case Nil
  then show ?case by simp
next
  case (Cons x ts)
  then obtain v where "x = Inr v" by auto
  moreover from Cons obtain vs where "gather ts = Inr vs" "length vs = length ts" by auto
  ultimately show ?case by simp
qed

lemma gather_length: "gather ts = Inr vs \<Longrightarrow> length vs = length ts"
  by (induction ts arbitrary: vs rule: gather.induct) (auto split: sum.splits)

lemma subset_absorb_member: "x \<in> M \<Longrightarrow> D' \<subseteq> insert x D \<union> M \<Longrightarrow> D' \<subseteq> D \<union> M"
  by blast

lemma mapped_from_returns:
  "i + length vals \<le> length m \<Longrightarrow>
   \<exists>d'. mapped_from m i vals d = Inr d' \<and> fst ` set d' \<subseteq> fst ` set d \<union> fst ` set m"
proof (induction vals arbitrary: i d)
  case Nil
  then show ?case by auto
next
  case (Cons v vals)
  then have i: "i < length m" by simp
  from Cons.prems have "Suc i + length vals \<le> length m" by simp
  from Cons.IH [OF this, of "dict_setitem d (fst (m ! i)) v"]
  obtain d' where d': "mapped_from m (Suc i) vals (dict_setitem d (fst (m ! i)) v) = Inr d'"
    and sub: "fst ` set d' \<subseteq> fst ` set (dict_setitem d (fst (m ! i)) v) \<union> fst ` set m"
    by blast
  from i have "m ! i \<in> set m" by simp
  then have "fst (m ! i) \<in> fst ` set m" by (rule imageI)
  moreover have "fst ` set (dict_setitem d (fst (m ! i)) v) = insert (fst (m ! i)) (fst ` set d)"
    by (rule keyset_dict_setitem)
  ultimately have "fst ` set d' \<subseteq> fst ` set d \<union> fst ` set m"
    using sub by (simp add: subset_absorb_member)
  moreover from i have "list_getitem m i = Inr (m ! i)" by (simp add: list_getitem_def)
  ultimately show ?case using d' by simp
qed

lemma record_round_returns:
  "fst ` set xs \<subseteq> fst ` set hs \<Longrightarrow>
   \<exists>hs'. record_round hs xs = Inr hs' \<and> fst ` set hs' = fst ` set hs"
proof (induction hs xs rule: record_round.induct)
  case (1 hs)
  then show ?case by simp
next
  case (2 hs original result rest)
  then have "original \<in> fst ` set hs" by simp
  then obtain h where h: "dict_getitem hs original = Inr h"
    by (cases "map_of hs original") (auto simp: dict_getitem_def map_of_eq_None_iff)
  let ?hs = "dict_setitem hs original (record_result h result)"
  from \<open>original \<in> fst ` set hs\<close> have keys: "fst ` set ?hs = fst ` set hs"
    by (auto simp: keyset_dict_setitem)
  with "2.prems" have "fst ` set rest \<subseteq> fst ` set ?hs" by simp
  from "2.IH" [OF h this] keys h show ?case by simp
qed

lemma round_step_returns:
  assumes keys: "fst ` set m \<subseteq> fst ` set hs"
    and benign: "\<forall>i < length m. \<forall>e.
        env i (ping_cmd windows (snd (m ! i)) timeout) (timeout + 1) = Raised e \<longrightarrow> is_Exception e"
  shows "\<exists>hs'. round_step windows m (Finite timeout) hs env = Inr hs' \<and> fst ` set hs' = fst ` set hs"
proof -
  let ?ips = "map snd m"
  let ?tasks = "map (\<lambda>(i, ip). ping_ip windows (env i) ip (Finite timeout)) (enumerate 0 ?ips)"
  have "\<forall>x \<in> set ?tasks. \<exists>v. x = Inr v"
  proof
    fix x assume "x \<in> set ?tasks"
    then obtain i where i: "i < length m" and x: "x = ping_ip windows (env i) (snd (m ! i)) (Finite timeout)"
      by (auto simp: enumerate_eq_zip in_set_zip)
    from benign i have "\<And>e. env i (ping_cmd windows (snd (m ! i)) timeout) (timeout + 1) = Raised e
        \<Longrightarrow> is_Exception e" by blast
    from ping_ip_returns [of "env i" windows "snd (m ! i)" timeout, OF this] x
    show "\<exists>v. x = Inr v" by simp
  qed
  from gather_returns [OF this] obtain results
    where g: "gather ?tasks = Inr results" and len: "length results = length m"
    by auto
  let ?ping_data = "dict_comprehension (zip ?ips results)"
  have "length (dict_values ?ping_data) \<le> length m"
    using dict_comprehension_length [of "zip ?ips results"] len by (simp add: dict_values_def)
  then have "0 + length (dict_values ?ping_data) \<le> length m" by simp
  from mapped_from_returns [OF this, of "[]"] obtain mapped
    where mp: "mapped_from m 0 (dict_values ?ping_data) [] = Inr mapped"
      and sub: "fst ` set mapped \<subseteq> fst ` set m"
    by auto
  from sub keys have "fst ` set mapped \<subseteq> fst ` set hs" by blast
  from record_round_returns [OF this] obtain hs'
    where "record_round hs mapped = Inr hs'" "fst ` set hs' = fst ` set hs" by blast
  with g mp show ?thesis
    by (simp add: round_step_def round_result_def ping_all_ips_def ping_data_mapped_def Let_def)
qed

lemma rounds_from_returns:
  assumes benign: "\<forall>env \<in> set envs. \<forall>i < length m. \<forall>e.
        env i (ping_cmd windows (snd (m ! i)) timeout) (timeout + 1) = Raised e \<longrightarrow> is_Exception e"
  shows "fst ` set m \<subseteq> fst ` set hs \<Longrightarrow> \<exists>hs'. rounds_from windows m (Finite timeout) hs envs = Inr hs'"
  using benign
proof (induction envs arbitrary: hs)
  case Nil
  then show ?case by simp
next
  case (Cons env envs)
  from Cons.prems(2) have b: "\<forall>i < length m. \<forall>e.
        env i (ping_cmd windows (snd (m ! i)) timeout) (timeout + 1) = Raised e \<longrightarrow> is_Exception e"
    by simp
  have "\<exists>hs1. round_step windows m (Finite timeout) hs env = Inr hs1 \<and> fst ` set hs1 = fst ` set hs"
    using Cons.prems(1) b by (rule round_step_returns)
  then obtain hs1
    where s: "round_step windows m (Finite timeout) hs env = Inr hs1" and k: "fst ` set hs1 = fst ` set hs"
    by blast
  from k Cons.prems(1) have "fst ` set m \<subseteq> fst ` set hs1" by simp
  moreover from Cons.prems(2) have "\<forall>env \<in> set envs. \<forall>i < length m. \<forall>e.
        env i (ping_cmd windows (snd (m ! i)) timeout) (timeout + 1) = Raised e \<longrightarrow> is_Exception e"
    by simp
  ultimately obtain hs' where "rounds_from windows m (Finite timeout) hs1 envs = Inr hs'"
    using Cons.IH by blast
  with s show ?case by simp
qed

lemma main_rounds_returns:
  assumes "\<forall>env \<in> set envs. \<forall>i < length m. \<forall>e.
        env i (ping_cmd windows (snd (m ! i)) timeout) (timeout + 1) = Raised e \<longrightarrow> is_Exception e"
  shows "\<exists>hs. main_rounds windows m (Finite timeout) envs = Inr hs"
  unfolding main_rounds_def
  by (rule rounds_from_returns [OF assms]) (simp add: init_histories_keys)

lemma record_result_failure:
  "failed_packets (record_result h None) = failed_packets h + 1"
  "success_packets (record_result h None) = success_packets h"
  by (simp_all add: record_result_def Let_def)

lemma record_result_window_last:
  "0 < maxlen (pings h) \<Longrightarrow> last (items (pings (record_result h r))) = r"
  by (cases "items (pings h)") (auto simp: record_result_pings deque_append_def Let_def)

section \<open>The round result and targets that share an address\<close>

text \<open>
  When the original names are pairwise distinct and so are the resolved addresses, the
  round gives every target, in order, the outcome of its own probe.
\<close>

lemma dict_setitem_fresh: "k \<notin> fst ` set d \<Longrightarrow> dict_setitem d k v = d @ [(k, v)]"
  by (induction d k v rule: dict_setitem.induct) auto

lemma foldl_setitem_distinct:
  "distinct (map fst d @ map fst kvs) \<Longrightarrow> foldl (\<lambda>d (k, v). dict_setitem d k v) d kvs = d @ kvs"
proof (induction kvs arbitrary: d)
  case Nil
  then show ?case by simp
next
  case (Cons kv kvs)
  obtain k v where kv: "kv = (k, v)" by (cases kv)
  from Cons.prems have fresh: "k \<notin> fst ` set d" by (auto simp: kv)
  then have s: "dict_setitem d k v = d @ [(k, v)]" by (rule dict_setitem_fresh)
  from Cons.prems have "distinct (map fst (d @ [(k, v)]) @ map fst kvs)" by (auto simp: kv)
  from Cons.IH [OF this] show ?case by (simp add: kv s)
qed

lemma dict_comprehension_distinct: "distinct (map fst kvs) \<Longrightarrow> dict_comprehension kvs = kvs"
  unfolding dict_comprehension_def using foldl_setitem_distinct [of "[]" kvs] by simp

lemma mapped_from_distinct:
  "i + length vals \<le> length m \<Longrightarrow> distinct (map fst d @ map fst (drop i m)) \<Longrightarrow>
   mapped_from m i vals d = Inr (d @ zip (map fst (drop i m)) vals)"
proof (induction vals arbitrary: i d)
  case Nil
  then show ?case by simp
next
  case (Cons v vals)
  then have i: "i < length m" by simp
  then have dr: "drop i m = m ! i # drop (Suc i) m" by (simp add: Cons_nth_drop_Suc)
  from Cons.prems(2) have fresh: "fst (m ! i) \<notin> fst ` set d" by (auto simp: dr)
  then have s: "dict_setitem d (fst (m ! i)) v = d @ [(fst (m ! i), v)]" by (rule dict_setitem_fresh)
  from Cons.prems(1) have le: "Suc i + length vals \<le> length m" by simp
  from Cons.prems(2) have "distinct (map fst (d @ [(fst (m ! i), v)]) @ map fst (drop (Suc i) m))"
    by (auto simp: dr)
  from Cons.IH [OF le this] i show ?case by (simp add: list_getitem_def s dr)
qed

lemma round_result_distinct:
  assumes names: "distinct (map fst m)" and addresses: "distinct (map snd m)"
    and g: "gather (map (\<lambda>(i, ip). ping_ip windows (env i) ip timeout) (enumerate 0 (map snd m)))
              = Inr results"
  shows "round_result windows m timeout env = Inr (zip (map fst m) results)"
proof -
  from gather_length [OF g] have len: "length results = length m" by simp
  then have "map fst (zip (map snd m) results) = map snd m" by simp
  with addresses have "dict_comprehension (zip (map snd m) results) = zip (map snd m) results"
    by (simp add: dict_comprehension_distinct)
  moreover from len have "dict_values (zip (map snd m) results) = results"
    by (simp add: dict_values_def)
  moreover have "mapped_from m 0 results [] = Inr ([] @ zip (map fst (drop 0 m)) results)"
    using len names by (intro mapped_from_distinct) simp_all
  ultimately show ?thesis
    using g by (simp add: round_result_def ping_all_ips_def ping_data_mapped_def Let_def)
qed

text \<open>
  Claim C6 fails on the program. \<^verbatim>\<open>ping_all_ips\<close> keys the outcomes by resolved address, so
  two targets with one address leave a single entry, and \<^verbatim>\<open>main\<close> pairs the remaining
  values with the first original names by position. With the targets \<^verbatim>\<open>localhost\<close>
  (resolved to \<^verbatim>\<open>127.0.0.1\<close>), \<^verbatim>\<open>127.0.0.1\<close> and \<^verbatim>\<open>8.8.8.8\<close>, whose probes give 1, 2 and
  3 ms, the round holds two outcomes: \<^verbatim>\<open>8.8.8.8\<close> has none and its history stays empty,
  and \<^verbatim>\<open>127.0.0.1\<close> is given the 3 ms of \<^verbatim>\<open>8.8.8.8\<close>.
\<close>

theorem round_result_shared_address:
  "round_result False
     [(''localhost'', ''127.0.0.1''), (''127.0.0.1'', ''127.0.0.1''), (''8.8.8.8'', ''8.8.8.8'')] (Finite 2)
     (\<lambda>i cmd wait. if i = 0 then Stdout ''time=1 ms'' else if i = 1 then Stdout ''time=2 ms''
                    else Stdout ''time=3 ms'')
   = Inr [(''localhost'', Some 2), (''127.0.0.1'', Some 3)]
   \<and> main_rounds False
     [(''localhost'', ''127.0.0.1''), (''127.0.0.1'', ''127.0.0.1''), (''8.8.8.8'', ''8.8.8.8'')] (Finite 2)
     [\<lambda>i cmd wait. if i = 0 then Stdout ''time=1 ms'' else if i = 1 then Stdout ''time=2 ms''
                    else Stdout ''time=3 ms'']
   = Inr [(''localhost'', \<lparr>pings = \<lparr>items = [Some 2], maxlen = 50\<rparr>, total_packets = 1,
                            success_packets = 1, failed_packets = 0\<rparr>),
          (''127.0.0.1'', \<lparr>pings = \<lparr>items = [Some 3], maxlen = 50\<rparr>, total_packets = 1,
                            success_packets = 1, failed_packets = 0\<rparr>),
          (''8.8.8.8'', \<lparr>pings = \<lparr>items = [], maxlen = 50\<rparr>, total_packets = 0,
                          success_packets = 0, failed_packets = 0\<rparr>)]"
  by (simp add: round_eval)

section \<open>Failed probes and targets that share an address\<close>

text \<open>
  When names and addresses are pairwise distinct, a round records for every target the
  outcome of its own probe; a failed probe then adds a failure to its target's history.
\<close>

lemma gather_nth: "gather ts = Inr vs \<Longrightarrow> i < length ts \<Longrightarrow> ts ! i = Inr (vs ! i)"
proof (induction ts arbitrary: vs i rule: gather.induct)
  case 1
  then show ?case by simp
next
  case (2 e ts)
  then show ?case by simp
next
  case (3 x ts)
  from "3.prems"(1) obtain xs where xs: "gather ts = Inr xs" and vs: "vs = x # xs"
    by (auto split: sum.splits)
  show ?case
  proof (cases i)
    case 0
    with vs show ?thesis by simp
  next
    case (Suc j)
    with "3.prems"(2) have "j < length ts" by simp
    from "3.IH" [OF xs this] Suc vs show ?thesis by simp
  qed
qed

lemma record_round_distinct:
  "distinct (map fst xs) \<Longrightarrow> record_round hs xs = Inr hs' \<Longrightarrow>
   map_of hs' k = (case map_of xs k of
                     None \<Rightarrow> map_of hs k
                   | Some r \<Rightarrow> map_option (\<lambda>h. record_result h r) (map_of hs k))"
proof (induction hs xs rule: record_round.induct)
  case (1 hs)
  then show ?case by simp
next
  case (2 hs original result rest)
  from "2.prems"(2) obtain h where h: "dict_getitem hs original = Inr h"
    and rest: "record_round (dict_setitem hs original (record_result h result)) rest = Inr hs'"
    by (auto split: sum.splits)
  from "2.prems"(1) have d: "distinct (map fst rest)" and fresh: "original \<notin> fst ` set rest"
    by auto
  from fresh have none: "map_of rest original = None" by (simp add: map_of_eq_None_iff)
  from h have hs: "map_of hs original = Some h" by (simp add: dict_getitem_Inr)
  note ih = "2.IH" [OF h d rest]
  show ?case
  proof (cases "k = original")
    case True
    with ih none hs show ?thesis by (simp add: map_of_dict_setitem)
  next
    case False
    then have eq: "map_of (dict_setitem hs original (record_result h result)) k = map_of hs k"
      by (simp add: map_of_dict_setitem)
    from ih False show ?thesis unfolding eq by simp
  qed
qed

lemma round_step_distinct:
  assumes names: "distinct (map fst m)" and addresses: "distinct (map snd m)"
    and g: "gather (map (\<lambda>(i, ip). ping_ip windows (env i) ip timeout) (enumerate 0 (map snd m)))
              = Inr results"
    and step: "round_step windows m timeout hs env = Inr hs'"
    and i: "i < length m" and h: "map_of hs (fst (m ! i)) = Some h"
  shows "map_of hs' (fst (m ! i)) = Some (record_result h (results ! i))"
proof -
  from gather_length [OF g] have len: "length results = length m" by simp
  from round_result_distinct [OF names addresses g] step
  have r: "record_round hs (zip (map fst m) results) = Inr hs'"
    by (simp add: round_step_def)
  from len have keys: "map fst (zip (map fst m) results) = map fst m" by simp
  with names have d: "distinct (map fst (zip (map fst m) results))" by simp
  have "map_of (zip (map fst m) results) (map fst m ! i) = Some (results ! i)"
    using len names i by (intro map_of_zip_nth) simp_all
  with i have "map_of (zip (map fst m) results) (fst (m ! i)) = Some (results ! i)" by simp
  with record_round_distinct [OF d r, of "fst (m ! i)"] h show ?thesis by simp
qed

lemma failed_probe_recorded:
  assumes names: "distinct (map fst m)" and addresses: "distinct (map snd m)"
    and step: "round_step windows m timeout hs env = Inr hs'"
    and i: "i < length m" and h: "map_of hs (fst (m ! i)) = Some h"
    and failed: "ping_ip windows (env i) (snd (m ! i)) timeout = Inr None"
  shows "map_of hs' (fst (m ! i)) = Some (record_result h None)"
proof -
  let ?tasks = "map (\<lambda>(i, ip). ping_ip windows (env i) ip timeout) (enumerate 0 (map snd m))"
  from step obtain results where g: "gather ?tasks = Inr results"
    by (auto simp: round_step_def round_result_def ping_all_ips_def Let_def split: sum.splits)
  from i have "?tasks ! i = ping_ip windows (env i) (snd (m ! i)) timeout"
    by (simp add: nth_enumerate_eq)
  moreover from i have "i < length ?tasks" by simp
  ultimately have "results ! i = None"
    using gather_nth [OF g, of i] failed by simp
  with round_step_distinct [OF names addresses g step i h] show ?thesis by simp
qed

text \<open>
  A timeout that is not finite ends the first round with the exception of \<^verbatim>\<open>int\<close>,
  whatever the subprocess would do.
\<close>

lemma nan_timeout_aborts_round:
  "main_rounds False [(''a'', ''1.1.1.1'')] NaN [\<lambda>i cmd wait. Stdout ''time=5 ms'']
     = Inl ValueError"
  by (simp add: round_eval)

text \<open>
  Claim C9 fails on the program, by the defect of C6. The targets \<^verbatim>\<open>a\<close> and \<^verbatim>\<open>b\<close> share
  the address \<^verbatim>\<open>1.1.1.1\<close>. The probe of \<^verbatim>\<open>a\<close> runs into its deadline and returns the
  failure outcome, the probe of \<^verbatim>\<open>b\<close> takes 5 ms. Both outcomes are stored under the one
  address, the later replacing the earlier, and the value left is given to \<^verbatim>\<open>a\<close>: the
  round records a success of 5 ms for \<^verbatim>\<open>a\<close> and nothing for \<^verbatim>\<open>b\<close>, so no history counts
  the failure.
\<close>

theorem failed_probe_not_recorded:
  "ping_ip False (\<lambda>cmd wait. Raised TimeoutError) ''1.1.1.1'' (Finite 2) = Inr None
   \<and> main_rounds False [(''a'', ''1.1.1.1''), (''b'', ''1.1.1.1'')] (Finite 2)
       [\<lambda>i cmd wait. if i = 0 then Raised TimeoutError else Stdout ''time=5 ms'']
     = Inr [(''a'', \<lparr>pings = \<lparr>items = [Some 5], maxlen = 50\<rparr>, total_packets = 1,
                     success_packets = 1, failed_packets = 0\<rparr>),
            (''b'', \<lparr>pings = \<lparr>items = [], maxlen = 50\<rparr>, total_packets = 0,
                     success_packets = 0, failed_packets = 0\<rparr>)]"
  by (simp add: round_eval)

end
